theory Spec2Isabelle
  imports Main "HOL-Library.Sublist"
begin

section \<open>Python values and text primitives used by \<open>ms_analyzer.py\<close>\<close>

text \<open>
  The functions of \<open>ms_analyzer.py\<close> are dynamically typed: \<open>split_chapters\<close> tests
  \<open>isinstance(page_text, str)\<close> and \<open>get_chapter_start_pages\<close> tests
  \<open>isinstance(first_entry, tuple)\<close>. The values they can meet are modelled by one
  datatype. Text is modelled over ASCII: a \<open>string\<close> is a list of characters, and the
  character classes below are those of Python's \<open>str\<close> methods and of the \<open>re\<close> module
  restricted to code points below 128.
\<close>

datatype pyval =
    PNone
  | PInt int
  | PStr string
  | PTuple "pyval list"
  | PList "pyval list"

datatype py_error = IndexError | TypeError | ValueError | AttributeError

definition upper_chars :: string where
  "upper_chars = ''ABCDEFGHIJKLMNOPQRSTUVWXYZ''"

definition lower_chars :: string where
  "lower_chars = ''abcdefghijklmnopqrstuvwxyz''"

definition to_lower :: "char \<Rightarrow> char" where
  "to_lower c = (case map_of (zip upper_chars lower_chars) c of Some d \<Rightarrow> d | None \<Rightarrow> c)"

definition to_upper :: "char \<Rightarrow> char" where
  "to_upper c = (case map_of (zip lower_chars upper_chars) c of Some d \<Rightarrow> d | None \<Rightarrow> c)"

text \<open>\<open>str.upper()\<close>.\<close>

definition upper :: "string \<Rightarrow> string" where
  "upper s = map to_upper s"

definition is_alpha :: "char \<Rightarrow> bool" where
  "is_alpha c \<longleftrightarrow> c \<in> set (upper_chars @ lower_chars)"

text \<open>The class \<open>\d\<close>.\<close>

definition is_digit :: "char \<Rightarrow> bool" where
  "is_digit c \<longleftrightarrow> c \<in> set ''0123456789''"

text \<open>The class \<open>\w\<close>: letters, digits and the underscore.\<close>

definition is_word :: "char \<Rightarrow> bool" where
  "is_word c \<longleftrightarrow> is_alpha c \<or> is_digit c \<or> c = CHR ''_''"

text \<open>
  The class \<open>\s\<close>, which is also what \<open>str.strip()\<close> removes: tab, line feed,
  vertical tab, form feed, carriage return, the separators \<open>0x1C\<close> to \<open>0x1F\<close> and
  the space.
\<close>

definition is_space :: "char \<Rightarrow> bool" where
  "is_space c \<longleftrightarrow>
     c \<in> set [CHR 0x09, CHR 0x0A, CHR 0x0B, CHR 0x0C, CHR 0x0D,
                CHR 0x1C, CHR 0x1D, CHR 0x1E, CHR 0x1F, CHR 0x20]"

text \<open>
  The line boundaries of \<open>str.splitlines()\<close>: line feed, carriage return, vertical
  tab, form feed and the separators \<open>0x1C\<close> to \<open>0x1E\<close>; a carriage return followed by a
  line feed is one boundary.
\<close>

definition is_linebreak :: "char \<Rightarrow> bool" where
  "is_linebreak c \<longleftrightarrow>
     c \<in> set [CHR 0x0A, CHR 0x0D, CHR 0x0B, CHR 0x0C, CHR 0x1C, CHR 0x1D, CHR 0x1E]"

text \<open>
  \<open>str.splitlines()\<close>: the lines without their boundaries; a boundary at the very end
  of the text opens no further line, and the empty text has no line.
\<close>

fun splitlines :: "string \<Rightarrow> string list" where
  "splitlines [] = []"
| "splitlines [c] = (if is_linebreak c then [[]] else [[c]])"
| "splitlines (c # d # cs) =
     (if c = CHR 0x0D \<and> d = CHR 0x0A then [] # splitlines cs
      else if is_linebreak c then [] # splitlines (d # cs)
      else (case splitlines (d # cs) of
              [] \<Rightarrow> [[c]]
            | l # ls \<Rightarrow> (c # l) # ls))"

text \<open>\<open>str.strip()\<close>: leading and trailing whitespace removed.\<close>

definition strip :: "string \<Rightarrow> string" where
  "strip s = rev (dropWhile is_space (rev (dropWhile is_space s)))"

text \<open>\<open>sep.join(parts)\<close>.\<close>

fun join :: "string \<Rightarrow> string list \<Rightarrow> string" where
  "join sep [] = []"
| "join sep [x] = x"
| "join sep (x # y # ys) = x @ sep @ join sep (y # ys)"

text \<open>The substring test \<open>needle in haystack\<close>.\<close>

fun contains :: "string \<Rightarrow> string \<Rightarrow> bool" where
  "contains [] needle = (needle = [])"
| "contains (c # cs) needle = (prefix needle (c # cs) \<or> contains cs needle)"

section \<open>Regular expressions\<close>

text \<open>
  The patterns of the program use literals, the classes \<open>\d\<close>, \<open>\s\<close>, \<open>\w\<close>,
  \<open>[a-z]\<close>, \<open>[ivxlcdm]\<close> and \<open>.\<close>, the repetitions \<open>+\<close>, \<open>*\<close> and \<open>?\<close>,
  alternation, sequence and the word boundary \<open>\b\<close>. A pattern is a value of \<open>rx\<close>;
  \<open>ends r prev s\<close> lists, in the order in which a backtracking matcher tries them
  (greedy repetitions, left alternative first), every way the pattern can match a
  prefix of \<open>s\<close>: each entry is the last character before the end of the match and the
  text left over. \<open>prev\<close> is the character before \<open>s\<close>, which \<open>\b\<close> looks at.
  Literals are matched without regard to case, as under \<open>re.IGNORECASE\<close>.
\<close>

datatype rx =
    Lit string
  | Plus "char \<Rightarrow> bool"
  | Star "char \<Rightarrow> bool"
  | Opt rx
  | Bnd
  | Alt rx rx
  | Seq rx rx

fun lit_ends :: "string \<Rightarrow> char option \<Rightarrow> string \<Rightarrow> (char option \<times> string) list" where
  "lit_ends [] prev s = [(prev, s)]"
| "lit_ends (p # ps) prev [] = []"
| "lit_ends (p # ps) prev (c # cs) =
     (if to_lower c = to_lower p then lit_ends ps (Some c) cs else [])"

fun plus_ends :: "(char \<Rightarrow> bool) \<Rightarrow> string \<Rightarrow> (char option \<times> string) list" where
  "plus_ends P [] = []"
| "plus_ends P (c # cs) = (if P c then plus_ends P cs @ [(Some c, cs)] else [])"

definition is_word_opt :: "char option \<Rightarrow> bool" where
  "is_word_opt prev = (case prev of None \<Rightarrow> False | Some c \<Rightarrow> is_word c)"

text \<open>\<open>\b\<close> holds where exactly one of the two neighbouring characters is a word character.\<close>

definition at_boundary :: "char option \<Rightarrow> string \<Rightarrow> bool" where
  "at_boundary prev s \<longleftrightarrow>
     is_word_opt prev \<noteq> (case s of [] \<Rightarrow> False | c # _ \<Rightarrow> is_word c)"

fun ends :: "rx \<Rightarrow> char option \<Rightarrow> string \<Rightarrow> (char option \<times> string) list" where
  "ends (Lit p) prev s = lit_ends p prev s"
| "ends (Plus P) prev s = plus_ends P s"
| "ends (Star P) prev s = plus_ends P s @ [(prev, s)]"
| "ends (Opt r) prev s = ends r prev s @ [(prev, s)]"
| "ends Bnd prev s = (if at_boundary prev s then [(prev, s)] else [])"
| "ends (Alt r1 r2) prev s = ends r1 prev s @ ends r2 prev s"
| "ends (Seq r1 r2) prev s = concat (map (\<lambda>(p, t). ends r2 p t) (ends r1 prev s))"

text \<open>\<open>regex.match(s)\<close> as a truth value: the pattern matches at the start of \<open>s\<close>.\<close>

definition rx_match :: "rx \<Rightarrow> string \<Rightarrow> bool" where
  "rx_match r s \<longleftrightarrow> ends r None s \<noteq> []"

text \<open>
  \<open>re.findall(r, text)\<close> for a pattern without groups: scanning from the left, the first
  way the pattern matches at a position gives a token and the scan goes on after it;
  where it does not match, the scan moves one character on. A match that consumes
  nothing is recorded as the empty token and the scan moves one character on.
\<close>

function findall :: "rx \<Rightarrow> char option \<Rightarrow> string \<Rightarrow> string list" where
  "findall r prev s =
     (case ends r prev s of
        (p, t) # _ \<Rightarrow>
          (if length t < length s then take (length s - length t) s # findall r p t
           else (case s of [] \<Rightarrow> [[]] | c # cs \<Rightarrow> [] # findall r (Some c) cs))
      | [] \<Rightarrow> (case s of [] \<Rightarrow> [] | c # cs \<Rightarrow> findall r (Some c) cs))"
  by pat_completeness auto
termination
  by (relation "measure (\<lambda>(r, prev, s). length s)") auto

section \<open>\<open>count_words\<close>\<close>

text \<open>The pattern \<open>\b\w+\b\<close>.\<close>

definition word_regex :: rx where
  "word_regex = Seq Bnd (Seq (Plus is_word) Bnd)"

definition count_words :: "string \<Rightarrow> int" where
  "count_words text = int (length (findall word_regex None text))"

text \<open>
  The reading of the specification: the tokens are the maximal runs of word characters
  of the text.
\<close>

function runs :: "(char \<Rightarrow> bool) \<Rightarrow> string \<Rightarrow> string list" where
  "runs P [] = []"
| "runs P (c # cs) =
     (if P c then (c # takeWhile P cs) # runs P (dropWhile P cs) else runs P cs)"
  by pat_completeness auto
termination
  by (relation "measure (\<lambda>(P, s). length s)") (auto simp: length_dropWhile_le less_Suc_eq_le)

section \<open>\<open>split_chapters\<close>\<close>

text \<open>
  \<open>^(?:chapter|book)\s+(?:\d+|[a-z]+|[ivxlcdm]+)\b.*\<close> under \<open>re.IGNORECASE\<close>, where the
  letter classes accept both cases.
\<close>

definition is_roman :: "char \<Rightarrow> bool" where
  "is_roman c \<longleftrightarrow> to_lower c \<in> set ''ivxlcdm''"

definition chapter_regex :: rx where
  "chapter_regex =
     Seq (Alt (Lit ''chapter'') (Lit ''book''))
       (Seq (Plus is_space)
         (Seq (Alt (Plus is_digit) (Alt (Plus is_alpha) (Plus is_roman)))
           (Seq Bnd (Star (\<lambda>c. c \<noteq> CHR 0x0A)))))"

text \<open>The dictionary \<open>section_patterns\<close>, in its insertion order, which is the order of \<open>items()\<close>.\<close>

definition section_patterns :: "(string \<times> rx) list" where
  "section_patterns =
     [(''Prologue'', Seq (Lit ''prologue'') Bnd),
      (''Epilogue'', Seq (Lit ''epilogue'') Bnd),
      (''Acknowledgements'',
         Seq (Lit ''acknowledg'') (Seq (Opt (Lit ''e'')) (Seq (Lit ''ments'') Bnd))),
      (''Dedication'', Seq (Lit ''dedication'') Bnd),
      (''Character List'', Seq (Lit ''character list'') Bnd),
      (''About the Author'', Seq (Lit ''about the author'') Bnd),
      (''Also by the Author'', Seq (Lit ''also by the author'') Bnd),
      (''Thank You'', Seq (Lit ''thank you'') Bnd)]"

text \<open>
  A chapter tuple \<open>(title, start, end, content)\<close>. Title and start are \<open>None\<close> until a
  heading has been seen.
\<close>

record chapter_tuple =
  ch_title :: "string option"
  ch_start :: "int option"
  ch_end :: int
  ch_content :: "(int \<times> string) list"

text \<open>The local variables of \<open>split_chapters\<close> that the loop updates.\<close>

record scan_state =
  chapters :: "chapter_tuple list"
  current_chapter :: "(int \<times> string) list"
  current_title :: "string option"
  current_start :: "int option"

definition init_state :: scan_state where
  "init_state = \<lparr>chapters = [], current_chapter = [], current_title = None, current_start = None\<rparr>"

text \<open>
  What both match sites do: close the running chapter when \<open>current_chapter\<close> is not
  empty, then start a new one at page \<open>i\<close>.
\<close>

definition open_chapter :: "scan_state \<Rightarrow> int \<Rightarrow> string \<Rightarrow> string \<Rightarrow> scan_state" where
  "open_chapter st i page_text new_title =
     \<lparr>chapters =
        (if current_chapter st \<noteq> []
         then chapters st @
                [\<lparr>ch_title = current_title st, ch_start = current_start st,
                  ch_end = i - 1, ch_content = current_chapter st\<rparr>]
         else chapters st),
      current_chapter = [(i, page_text)],
      current_title = Some new_title,
      current_start = Some i\<rparr>"

text \<open>The loop over \<open>section_patterns.items()\<close>: the first label whose pattern matches.\<close>

fun match_sections :: "(string \<times> rx) list \<Rightarrow> string \<Rightarrow> string option" where
  "match_sections [] clean_line = None"
| "match_sections ((label, regex) # rest) clean_line =
     (if rx_match regex clean_line then Some label else match_sections rest clean_line)"

text \<open>
  The loop over the lines of one page, returning \<open>matched\<close> and the state. Both
  \<open>break\<close>s leave the loop at the first line that matches.
\<close>

fun scan_lines :: "scan_state \<Rightarrow> int \<Rightarrow> string \<Rightarrow> string list \<Rightarrow> bool \<times> scan_state" where
  "scan_lines st i page_text [] = (False, st)"
| "scan_lines st i page_text (line # lines) =
     (let clean_line = strip line in
      if rx_match chapter_regex clean_line
      then (True, open_chapter st i page_text clean_line)
      else (case match_sections section_patterns clean_line of
              Some label \<Rightarrow> (True, open_chapter st i page_text label)
            | None \<Rightarrow> scan_lines st i page_text lines))"

text \<open>
  The body of the loop over the pages. A page that is not a string is skipped by
  \<open>continue\<close>. \<open>current_chapter\<close> starts as the empty list and is only ever rebound to
  a list, so the test \<open>current_chapter is not None\<close> is always true and a page without
  a heading is always appended.
\<close>

definition process_page :: "scan_state \<Rightarrow> int \<Rightarrow> pyval \<Rightarrow> scan_state" where
  "process_page st i page =
     (case page of
        PStr page_text \<Rightarrow>
          (case scan_lines st i page_text (splitlines page_text) of
             (matched, st') \<Rightarrow>
               (if \<not> matched
                then st'\<lparr>current_chapter := current_chapter st' @ [(i, page_text)]\<rparr>
                else st'))
      | _ \<Rightarrow> st)"

fun scan_pages :: "scan_state \<Rightarrow> int \<Rightarrow> pyval list \<Rightarrow> scan_state" where
  "scan_pages st i [] = st"
| "scan_pages st i (page # pages) = scan_pages (process_page st i page) (i + 1) pages"

definition split_chapters :: "pyval list \<Rightarrow> chapter_tuple list" where
  "split_chapters pages =
     (let st = scan_pages init_state 0 pages in
      if current_chapter st \<noteq> []
      then chapters st @
             [\<lparr>ch_title = current_title st, ch_start = current_start st,
               ch_end = int (length pages) - 1, ch_content = current_chapter st\<rparr>]
      else chapters st)"

section \<open>\<open>get_chapter_start_pages\<close>\<close>

text \<open>\<open>chapter[0]\<close> on an arbitrary value.\<close>

definition first_item :: "pyval \<Rightarrow> py_error + pyval" where
  "first_item v =
     (case v of
        PTuple xs \<Rightarrow> (case xs of [] \<Rightarrow> Inl IndexError | x # _ \<Rightarrow> Inr x)
      | PList xs \<Rightarrow> (case xs of [] \<Rightarrow> Inl IndexError | x # _ \<Rightarrow> Inr x)
      | PStr s \<Rightarrow> (case s of [] \<Rightarrow> Inl IndexError | c # _ \<Rightarrow> Inr (PStr [c]))
      | _ \<Rightarrow> Inl TypeError)"

text \<open>
  For the components \<open>es\<close> of the tuple \<open>first_entry\<close>: the unpacking
  \<open>page_index, page_text = first_entry\<close>, which needs exactly two components, and
  \<open>page_text.strip().splitlines()[0].strip().upper()\<close>, which needs a string with at
  least one line after stripping.
\<close>

definition possible_title :: "pyval list \<Rightarrow> py_error + string" where
  "possible_title es =
     (case es of
        [page_index, page_text] \<Rightarrow>
          (case page_text of
             PStr t \<Rightarrow>
               (case splitlines (strip t) of
                  [] \<Rightarrow> Inl IndexError
                | l # _ \<Rightarrow> Inr (upper (strip l)))
           | _ \<Rightarrow> Inl AttributeError)
      | _ \<Rightarrow> Inl ValueError)"

text \<open>
  The inner \<open>for i, page in enumerate(pages)\<close> with its \<open>else\<close>: the 1-based number of
  the first page whose uppercased text contains the title, or \<open>None\<close>.
\<close>

fun find_page :: "string \<Rightarrow> int \<Rightarrow> pyval list \<Rightarrow> py_error + int option" where
  "find_page ttl i [] = Inr None"
| "find_page ttl i (page # pages) =
     (case page of
        PStr t \<Rightarrow> (if contains (upper t) ttl then Inr (Some (i + 1)) else find_page ttl (i + 1) pages)
      | _ \<Rightarrow> Inl AttributeError)"

text \<open>
  The loop over the chapters. The dictionary \<open>start_pages\<close> maps a title to a page
  number or to \<open>None\<close>; a key that was never stored is not in its domain.
\<close>

fun resolve_loop ::
  "(string \<rightharpoonup> int option) \<Rightarrow> pyval list \<Rightarrow> pyval list \<Rightarrow> py_error + (string \<rightharpoonup> int option)" where
  "resolve_loop start_pages [] pages = Inr start_pages"
| "resolve_loop start_pages (chapter # rest) pages =
     (case first_item chapter of
        Inl e \<Rightarrow> Inl e
      | Inr first_entry \<Rightarrow>
          (case first_entry of
             PTuple es \<Rightarrow>
               (case possible_title es of
                  Inl e \<Rightarrow> Inl e
                | Inr ttl \<Rightarrow>
                    (case find_page ttl 0 pages of
                       Inl e \<Rightarrow> Inl e
                     | Inr r \<Rightarrow> resolve_loop (start_pages(ttl \<mapsto> r)) rest pages))
           | _ \<Rightarrow> resolve_loop start_pages rest pages))"

definition get_chapter_start_pages ::
  "pyval list \<Rightarrow> pyval list \<Rightarrow> py_error + (string \<rightharpoonup> int option)" where
  "get_chapter_start_pages chapter_list pages = resolve_loop Map.empty chapter_list pages"

text \<open>A chapter tuple of \<open>split_chapters\<close> as the Python value it is.\<close>

definition chapter_value :: "chapter_tuple \<Rightarrow> pyval" where
  "chapter_value c =
     PTuple [(case ch_title c of None \<Rightarrow> PNone | Some t \<Rightarrow> PStr t),
             (case ch_start c of None \<Rightarrow> PNone | Some s \<Rightarrow> PInt s),
             PInt (ch_end c),
             PList (map (\<lambda>(i, t). PTuple [PInt i, PStr t]) (ch_content c))]"

section \<open>\<open>analyze\<close>\<close>

text \<open>
  \<open>extract_text_by_page\<close> on the values that \<open>page.extract_text()\<close> gave for the pages
  of the document: a value that is not a string becomes the empty string.
\<close>

definition extract_text_by_page :: "pyval list \<Rightarrow> pyval list" where
  "extract_text_by_page texts =
     map (\<lambda>text. case text of PStr s \<Rightarrow> PStr s | _ \<Rightarrow> PStr []) texts"

text \<open>A page field of a record: a number, or the string \<open>"?"\<close>.\<close>

datatype cell = IntCell int | StrCell string

record chapter_stat =
  chapter_number :: int
  title :: "string option"
  start_page :: cell
  end_page :: cell
  page_count :: cell
  word_count :: int

text \<open>
  The body of the \<open>try\<close>. Every entry of \<open>content\<close> is a pair of a page index and its
  text, so the generator passes all of them to \<open>join\<close>. The subtraction
  \<open>end_page - start_page\<close> raises \<open>TypeError\<close> when \<open>start_page\<close> is \<open>None\<close>.
\<close>

definition chapter_record :: "int \<Rightarrow> chapter_tuple \<Rightarrow> py_error + chapter_stat" where
  "chapter_record i c =
     (let text_block = join ''\<newline>'' (map snd (ch_content c));
          wc = count_words text_block
      in (case ch_start c of
            None \<Rightarrow> Inl TypeError
          | Some start \<Rightarrow>
              Inr \<lparr>chapter_number = i, title = ch_title c,
                   start_page = IntCell (start + 1), end_page = IntCell (ch_end c + 1),
                   page_count = IntCell (ch_end c - start + 1), word_count = wc\<rparr>))"

text \<open>The record appended by the \<open>except\<close> branch.\<close>

definition placeholder :: "int \<Rightarrow> chapter_tuple \<Rightarrow> chapter_stat" where
  "placeholder i c =
     \<lparr>chapter_number = i, title = ch_title c,
      start_page = StrCell ''?'', end_page = StrCell ''?'',
      page_count = StrCell ''?'', word_count = 0\<rparr>"

text \<open>The loop \<open>for i, (...) in enumerate(chapters, start=1)\<close>.\<close>

fun chapter_loop :: "int \<Rightarrow> chapter_tuple list \<Rightarrow> chapter_stat list" where
  "chapter_loop i [] = []"
| "chapter_loop i (c # cs) =
     (case chapter_record i c of
        Inr r \<Rightarrow> r
      | Inl e \<Rightarrow> placeholder i c) # chapter_loop (i + 1) cs"

text \<open>
  \<open>analyze\<close> after the download and the opening of the file: the result is
  \<open>stats["chapter_count"]\<close> and \<open>chapter_data\<close>.
\<close>

definition analyze :: "pyval list \<Rightarrow> int \<times> chapter_stat list" where
  "analyze texts =
     (let pages = extract_text_by_page texts;
          chapter_list = split_chapters pages;
          chapter_data = chapter_loop 1 chapter_list
      in (int (length chapter_data), chapter_data))"

section \<open>Auxiliary notions for the statements\<close>

text \<open>
  The heading that one stripped line gives, as the body of the loop over the lines
  decides it: the line itself when \<open>chapter_regex\<close> matches, else the first label of
  \<open>section_patterns\<close> whose pattern matches.
\<close>

definition line_heading :: "string \<Rightarrow> string option" where
  "line_heading clean_line =
     (if rx_match chapter_regex clean_line then Some clean_line
      else match_sections section_patterns clean_line)"

text \<open>The heading of the first line of a page that has one.\<close>

fun page_heading :: "string list \<Rightarrow> string option" where
  "page_heading [] = None"
| "page_heading (line # lines) =
     (case line_heading (strip line) of
        Some ttl \<Rightarrow> Some ttl
      | None \<Rightarrow> page_heading lines)"

text \<open>
  The entries of a page list that are pages of the input: an entry \<open>(j, t)\<close> stands for
  the string \<open>t\<close> at index \<open>j\<close> of \<open>pages\<close>.
\<close>

definition page_entries :: "pyval list \<Rightarrow> (int \<times> string) list \<Rightarrow> bool" where
  "page_entries pages es \<longleftrightarrow>
     (\<forall>(j, t)\<in>set es. 0 \<le> j \<and> j < int (length pages) \<and> pages ! nat j = PStr t)"

definition state_entries :: "pyval list \<Rightarrow> scan_state \<Rightarrow> bool" where
  "state_entries pages st \<longleftrightarrow>
     page_entries pages (current_chapter st) \<and>
     (\<forall>c\<in>set (chapters st). page_entries pages (ch_content c))"

text \<open>The chapters closed so far, and one more when a page list is being filled.\<close>

definition open_count :: "scan_state \<Rightarrow> nat" where
  "open_count st = length (chapters st) + (if current_chapter st = [] then 0 else 1)"

text \<open>
  Chapters in ascending order between \<open>lo\<close> and \<open>hi\<close>: each has a start page that is
  at most its end page, and starts after the end of the one before. Only where \<open>first\<close>
  holds may the first chapter have no start page.
\<close>

fun ordered_from :: "bool \<Rightarrow> int \<Rightarrow> chapter_tuple list \<Rightarrow> int \<Rightarrow> bool" where
  "ordered_from first lo [] hi = (lo \<le> hi)"
| "ordered_from first lo (c # cs) hi =
     ((case ch_start c of None \<Rightarrow> first | Some s \<Rightarrow> lo \<le> s \<and> s \<le> ch_end c) \<and>
      lo \<le> ch_end c + 1 \<and> ordered_from False (ch_end c + 1) cs hi)"

text \<open>
  What holds of the variables of the scan before page \<open>i\<close>: no chapter is closed until
  a heading has been seen, and after that the closed chapters are in order below the
  start of the running one.
\<close>

definition scan_inv :: "int \<Rightarrow> scan_state \<Rightarrow> bool" where
  "scan_inv i st \<longleftrightarrow>
     (case current_start st of
        None \<Rightarrow> chapters st = []
      | Some s \<Rightarrow> s < i \<and> current_chapter st \<noteq> [] \<and> ordered_from True 0 (chapters st) s)"

text \<open>
  A chapter tuple that was opened at page \<open>k\<close> with text \<open>t\<close> under the title \<open>ttl\<close>:
  its title and start are those, and its page list begins with that page.
\<close>

definition chapter_at :: "int \<Rightarrow> string \<Rightarrow> string \<Rightarrow> chapter_tuple \<Rightarrow> bool" where
  "chapter_at k t ttl c \<longleftrightarrow>
     ch_title c = Some ttl \<and> ch_start c = Some k \<and> take 1 (ch_content c) = [(k, t)]"

text \<open>
  The chapter opened at page \<open>k\<close> is the running one of the scan, or it has been closed
  and is among \<open>chapters\<close>.
\<close>

definition running_or_closed :: "int \<Rightarrow> string \<Rightarrow> string \<Rightarrow> scan_state \<Rightarrow> bool" where
  "running_or_closed k t ttl st \<longleftrightarrow>
     (current_title st = Some ttl \<and> current_start st = Some k \<and>
      take 1 (current_chapter st) = [(k, t)]) \<or>
     (\<exists>c\<in>set (chapters st). chapter_at k t ttl c)"

section \<open>Lemmas\<close>

declare findall.simps [simp del]

subsection \<open>The step for one page\<close>

lemma scan_lines_page_heading:
  "scan_lines st i t ls =
     (case page_heading ls of
        None \<Rightarrow> (False, st)
      | Some ttl \<Rightarrow> (True, open_chapter st i t ttl))"
  by (induction ls) (auto simp: line_heading_def Let_def split: option.splits)

lemma process_page_str:
  "process_page st i (PStr t) =
     (case page_heading (splitlines t) of
        None \<Rightarrow> st\<lparr>current_chapter := current_chapter st @ [(i, t)]\<rparr>
      | Some ttl \<Rightarrow> open_chapter st i t ttl)"
  by (simp add: process_page_def scan_lines_page_heading split: option.splits)

lemma process_page_non_str:
  "\<forall>t. page \<noteq> PStr t \<Longrightarrow> process_page st i page = st"
  by (cases page) (auto simp: process_page_def)

lemma process_page_empty:
  assumes "current_chapter (process_page st i page) = []"
  shows "process_page st i page = st"
proof (cases "\<exists>t. page = PStr t")
  case True
  then obtain t where "page = PStr t" by blast
  with assms show ?thesis
    by (auto simp: process_page_str open_chapter_def split: option.splits)
next
  case False
  then show ?thesis by (simp add: process_page_non_str)
qed

lemma scan_pages_empty:
  "current_chapter (scan_pages st i pages) = [] \<Longrightarrow> scan_pages st i pages = st"
proof (induction pages arbitrary: st i)
  case Nil
  then show ?case by simp
next
  case (Cons page pages)
  from Cons.prems
  have e: "current_chapter (scan_pages (process_page st i page) (i + 1) pages) = []"
    by simp
  from Cons.IH [OF e]
  have s: "scan_pages (process_page st i page) (i + 1) pages = process_page st i page" .
  with e have "current_chapter (process_page st i page) = []" by simp
  then have "process_page st i page = st" by (rule process_page_empty)
  with s show ?case by simp
qed

lemma split_chapters_last_end:
  assumes "split_chapters pages \<noteq> []"
  shows "ch_end (last (split_chapters pages)) = int (length pages) - 1"
proof (cases "current_chapter (scan_pages init_state 0 pages) = []")
  case True
  then have "scan_pages init_state 0 pages = init_state" by (rule scan_pages_empty)
  then have "split_chapters pages = []" by (simp add: split_chapters_def init_state_def)
  with assms show ?thesis by simp
next
  case False
  then show ?thesis by (simp add: split_chapters_def Let_def)
qed

subsection \<open>Literals without regard to case\<close>

lemma to_lower_other: "to_lower c = d \<Longrightarrow> d \<notin> set lower_chars \<Longrightarrow> c = d"
  by (auto simp: to_lower_def upper_chars_def lower_chars_def split: if_splits)

lemma is_word_to_lower: "is_word (to_lower c) \<longleftrightarrow> is_word c"
  by (auto simp: to_lower_def upper_chars_def lower_chars_def is_word_def is_alpha_def is_digit_def
      split: if_splits)

lemma lit_ends_ci:
  "map to_lower s = map to_lower p \<Longrightarrow>
   lit_ends p prev (s @ rest) = [(if s = [] then prev else Some (last s), rest)]"
proof (induction p arbitrary: s prev)
  case Nil
  then show ?case by simp
next
  case (Cons a p)
  then obtain c cs where s: "s = c # cs" and c: "to_lower c = to_lower a"
    and cs: "map to_lower cs = map to_lower p"
    by (cases s) auto
  from Cons.IH [OF cs, of "Some c"] c show ?case
    by (simp add: s)
qed

lemma chapter_1_matches:
  assumes "map to_lower l = ''chapter 1''"
  shows "rx_match chapter_regex l"
proof -
  have l: "l = take 7 l @ drop 7 l" by simp
  have "map to_lower (take 7 l) = take 7 (map to_lower l)" by (simp add: take_map)
  with assms have s: "map to_lower (take 7 l) = map to_lower ''chapter''"
    by (simp add: to_lower_def upper_chars_def lower_chars_def)
  have "map to_lower (drop 7 l) = drop 7 (map to_lower l)" by (simp add: drop_map)
  with assms have "map to_lower (drop 7 l) = '' 1''" by simp
  then obtain a b where d: "drop 7 l = [a, b]" and a: "to_lower a = CHR '' ''"
    and b: "to_lower b = CHR ''1''"
    by (auto simp: map_eq_Cons_conv)
  from a have a': "a = CHR '' ''" by (rule to_lower_other) (simp add: lower_chars_def)
  from b have b': "b = CHR ''1''" by (rule to_lower_other) (simp add: lower_chars_def)
  have "ends (Lit ''chapter'') None (take 7 l @ '' 1'') =
          [(if take 7 l = [] then None else Some (last (take 7 l)), '' 1'')]"
    using s by (simp add: lit_ends_ci)
  then have "ends chapter_regex None (take 7 l @ '' 1'') \<noteq> []"
    by (simp add: chapter_regex_def is_space_def is_digit_def at_boundary_def is_word_opt_def
        is_word_def)
  with l d a' b' show ?thesis by (simp add: rx_match_def)
qed

lemma prologue_not_chapter:
  assumes "map to_lower l = ''prologue''"
  shows "\<not> rx_match chapter_regex l"
proof -
  from assms obtain c cs where l: "l = c # cs" and c: "to_lower c = CHR ''p''"
    by (auto simp: map_eq_Cons_conv)
  have "to_lower CHR ''c'' = CHR ''c''" "to_lower CHR ''b'' = CHR ''b''"
    by (simp_all add: to_lower_def upper_chars_def lower_chars_def)
  with c have "lit_ends ''chapter'' None (c # cs) = []" "lit_ends ''book'' None (c # cs) = []"
    by simp_all
  then show ?thesis by (simp add: rx_match_def chapter_regex_def l)
qed

lemma prologue_section:
  assumes "map to_lower l = ''prologue''"
  shows "match_sections section_patterns l = Some ''Prologue''"
proof -
  from assms have ne: "l \<noteq> []" by auto
  have m: "map to_lower l = map to_lower ''prologue''"
    using assms by (simp add: to_lower_def upper_chars_def lower_chars_def)
  have "to_lower (last l) = last (map to_lower l)" using ne by (simp add: last_map)
  with assms have "to_lower (last l) = CHR ''e''" by simp
  then have "is_word (to_lower (last l))"
    by (simp add: is_word_def is_alpha_def lower_chars_def)
  then have w: "is_word (last l)" by (simp add: is_word_to_lower)
  from lit_ends_ci [OF m, of None "[]"] ne
  have "lit_ends ''prologue'' None l = [(Some (last l), [])]" by simp
  with w have "rx_match (Seq (Lit ''prologue'') Bnd) l"
    by (simp add: rx_match_def at_boundary_def is_word_opt_def)
  then show ?thesis by (simp add: section_patterns_def)
qed

lemma match_sections_first:
  "\<forall>(n, p)\<in>set ps. \<not> rx_match p cl \<Longrightarrow> rx_match r cl \<Longrightarrow>
   match_sections (ps @ (label, r) # qs) cl = Some label"
  by (induction ps) auto

subsection \<open>The tokens of \<open>count_words\<close>\<close>

lemma plus_ends_longest:
  "P c \<Longrightarrow> \<exists>rest. plus_ends P (c # cs) =
     (Some (last (c # takeWhile P cs)), dropWhile P cs) # rest"
proof (induction cs arbitrary: c)
  case Nil
  then show ?case by simp
next
  case (Cons d ds)
  show ?case
  proof (cases "P d")
    case True
    from Cons.IH [OF True] obtain rest where
      "plus_ends P (d # ds) = (Some (last (d # takeWhile P ds)), dropWhile P ds) # rest"
      by blast
    with Cons.prems True show ?thesis by simp
  next
    case False
    with Cons.prems show ?thesis by simp
  qed
qed

lemma dropWhile_head: "dropWhile P xs = d # ds \<Longrightarrow> \<not> P d"
  by (induction xs) (auto split: if_splits)

lemma is_word_last_run: "is_word c \<Longrightarrow> is_word (last (c # takeWhile is_word cs))"
proof -
  assume "is_word c"
  then have "\<forall>x\<in>set (c # takeWhile is_word cs). is_word x"
    by (auto dest: set_takeWhileD)
  then show ?thesis
    using last_in_set [of "c # takeWhile is_word cs"] by blast
qed

lemma boundary_after_run:
  assumes "is_word c"
  shows "at_boundary (Some (last (c # takeWhile is_word cs))) (dropWhile is_word cs)"
proof (cases "dropWhile is_word cs")
  case Nil
  from is_word_last_run [OF assms, of cs] show ?thesis
    by (simp add: at_boundary_def is_word_opt_def Nil)
next
  case (Cons d ds)
  then have "\<not> is_word d" by (rule dropWhile_head)
  with is_word_last_run [OF assms, of cs] show ?thesis
    by (simp add: at_boundary_def is_word_opt_def Cons)
qed

lemma word_regex_ends_word:
  assumes "is_word c" and "\<not> is_word_opt prev"
  shows "\<exists>rest. ends word_regex prev (c # cs) =
     (Some (last (c # takeWhile is_word cs)), dropWhile is_word cs) # rest"
proof -
  from plus_ends_longest [of is_word c cs] assms(1) obtain rest where
    "plus_ends is_word (c # cs) =
       (Some (last (c # takeWhile is_word cs)), dropWhile is_word cs) # rest"
    by blast
  moreover have "at_boundary prev (c # cs)"
    using assms by (simp add: at_boundary_def)
  ultimately show ?thesis
    using boundary_after_run [OF assms(1), of cs]
    by (simp add: word_regex_def)
qed

lemma word_regex_ends_none:
  "\<not> is_word c \<or> is_word_opt prev \<Longrightarrow> ends word_regex prev (c # cs) = []"
  by (auto simp: word_regex_def at_boundary_def)

lemma word_regex_ends_Nil: "ends word_regex prev [] = []"
  by (simp add: word_regex_def)

lemma findall_word_regex:
  "\<not> (is_word_opt prev \<and> (case s of [] \<Rightarrow> False | c # _ \<Rightarrow> is_word c)) \<Longrightarrow>
   findall word_regex prev s = runs is_word s"
proof (induction "length s" arbitrary: s prev rule: less_induct)
  case less
  show ?case
  proof (cases s)
    case Nil
    then show ?thesis by (simp add: findall.simps [of _ _ "[]"] word_regex_ends_Nil)
  next
    case (Cons c cs)
    show ?thesis
    proof (cases "is_word c")
      case False
      have "findall word_regex (Some c) cs = runs is_word cs"
        using False Cons by (intro less.hyps) (auto simp: is_word_opt_def)
      with False Cons show ?thesis
        by (simp add: findall.simps [of _ _ "c # cs"] word_regex_ends_none)
    next
      case True
      with less.prems Cons have np: "\<not> is_word_opt prev" by simp
      from word_regex_ends_word [OF True np, of cs] obtain rest where
        e: "ends word_regex prev (c # cs) =
              (Some (last (c # takeWhile is_word cs)), dropWhile is_word cs) # rest"
        by blast
      have len: "length (dropWhile is_word cs) < length (c # cs)"
        by (simp add: length_dropWhile_le less_Suc_eq_le)
      have tk: "take (length (c # cs) - length (dropWhile is_word cs)) (c # cs) =
                  c # takeWhile is_word cs"
      proof -
        have "length cs = length (takeWhile is_word cs) + length (dropWhile is_word cs)"
          by (metis length_append takeWhile_dropWhile_id)
        then have "length (c # cs) - length (dropWhile is_word cs) =
                     Suc (length (takeWhile is_word cs))"
          by simp
        moreover have "take (length (takeWhile is_word cs)) cs = takeWhile is_word cs"
          by (metis append_eq_conv_conj takeWhile_dropWhile_id)
        ultimately show ?thesis by simp
      qed
      have "findall word_regex (Some (last (c # takeWhile is_word cs))) (dropWhile is_word cs) =
              runs is_word (dropWhile is_word cs)"
      proof (intro less.hyps)
        show "length (dropWhile is_word cs) < length s" using len Cons by simp
        show "\<not> (is_word_opt (Some (last (c # takeWhile is_word cs))) \<and>
                 (case dropWhile is_word cs of [] \<Rightarrow> False | d # _ \<Rightarrow> is_word d))"
        proof (cases "dropWhile is_word cs")
          case Nil
          show ?thesis by (simp add: Nil)
        next
          case (Cons d ds)
          then have "\<not> is_word d" by (rule dropWhile_head)
          then show ?thesis by (simp add: Cons)
        qed
      qed
      with e len tk True Cons show ?thesis
        by (simp add: findall.simps [of _ _ "c # cs"])
    qed
  qed
qed

lemma count_words_runs: "count_words text = int (length (runs is_word text))"
  by (simp add: count_words_def findall_word_regex is_word_opt_def)

subsection \<open>Page lists hold string pages of the input\<close>

lemma page_entries_Nil [simp]: "page_entries pages []"
  by (simp add: page_entries_def)

lemma page_entries_append [simp]:
  "page_entries pages (es @ fs) \<longleftrightarrow> page_entries pages es \<and> page_entries pages fs"
  by (auto simp: page_entries_def)

lemma page_entries_single:
  "page_entries pages [(j, t)] \<longleftrightarrow> 0 \<le> j \<and> j < int (length pages) \<and> pages ! nat j = PStr t"
  by (simp add: page_entries_def)

lemma process_page_entries:
  assumes "state_entries pages st" and "0 \<le> i" and "i < int (length pages)"
    and "pages ! nat i = page"
  shows "state_entries pages (process_page st i page)"
proof (cases "\<exists>t. page = PStr t")
  case True
  then obtain t where t: "page = PStr t" by blast
  with assms have "page_entries pages [(i, t)]" by (simp add: page_entries_single)
  with assms(1) show ?thesis
    by (auto simp: t process_page_str state_entries_def open_chapter_def split: option.splits)
next
  case False
  with assms(1) show ?thesis by (simp add: process_page_non_str)
qed

lemma scan_pages_entries:
  assumes "pages = before @ rest" and "i = int (length before)" and "state_entries pages st"
  shows "state_entries pages (scan_pages st i rest)"
  using assms
proof (induction rest arbitrary: before st i)
  case Nil
  then show ?case by simp
next
  case (Cons page rest)
  have "state_entries pages (process_page st i page)"
    using Cons.prems by (intro process_page_entries) (auto simp: nth_append)
  moreover have "pages = (before @ [page]) @ rest" using Cons.prems by simp
  moreover have "i + 1 = int (length (before @ [page]))" using Cons.prems by simp
  ultimately have "state_entries pages (scan_pages (process_page st i page) (i + 1) rest)"
    by (rule Cons.IH [rotated 2])
  then show ?case by simp
qed

lemma split_chapters_entries:
  "\<forall>c\<in>set (split_chapters pages). page_entries pages (ch_content c)"
proof -
  have "state_entries pages init_state"
    by (simp add: state_entries_def init_state_def)
  then have "state_entries pages (scan_pages init_state 0 pages)"
    by (intro scan_pages_entries [where before = "[]"]) auto
  then show ?thesis
    by (auto simp: split_chapters_def Let_def state_entries_def)
qed

subsection \<open>One heading for each page\<close>

lemma page_heading_first:
  assumes "\<forall>x\<in>set before. line_heading (strip x) = None"
    and "line_heading (strip l) = Some ttl"
  shows "page_heading (before @ l # after) = Some ttl"
  using assms by (induction before) auto

lemma open_count_process_page:
  "open_count (process_page st i page) \<le> Suc (open_count st)"
proof (cases "\<exists>t. page = PStr t")
  case True
  then obtain t where t: "page = PStr t" by blast
  show ?thesis
    by (auto simp: t process_page_str open_count_def open_chapter_def split: option.splits)
next
  case False
  then show ?thesis by (simp add: process_page_non_str)
qed

lemma open_count_scan_pages:
  "open_count (scan_pages st i pages) \<le> open_count st + length pages"
proof (induction pages arbitrary: st i)
  case Nil
  then show ?case by simp
next
  case (Cons page pages)
  have "open_count (scan_pages (process_page st i page) (i + 1) pages)
          \<le> open_count (process_page st i page) + length pages"
    by (rule Cons.IH)
  also have "\<dots> \<le> Suc (open_count st) + length pages"
    using open_count_process_page [of st i page] by simp
  finally show ?case by simp
qed

lemma length_split_chapters:
  "length (split_chapters pages) \<le> length pages"
proof -
  have "length (split_chapters pages) = open_count (scan_pages init_state 0 pages)"
    by (simp add: split_chapters_def Let_def open_count_def)
  also have "\<dots> \<le> open_count init_state + length pages"
    by (rule open_count_scan_pages)
  finally show ?thesis by (simp add: open_count_def init_state_def)
qed

lemma chapters_process_page:
  "length (chapters (process_page st i page)) \<le> Suc (length (chapters st))"
proof (cases "\<exists>t. page = PStr t")
  case True
  then obtain t where t: "page = PStr t" by blast
  show ?thesis
    by (auto simp: t process_page_str open_chapter_def split: option.splits)
next
  case False
  then show ?thesis by (simp add: process_page_non_str)
qed

subsection \<open>The records of \<open>analyze\<close>\<close>

lemma length_chapter_loop [simp]: "length (chapter_loop i cs) = length cs"
  by (induction cs arbitrary: i) auto

lemma chapter_loop_nth:
  "k < length cs \<Longrightarrow>
   chapter_loop i cs ! k =
     (case chapter_record (i + int k) (cs ! k) of
        Inr r \<Rightarrow> r
      | Inl e \<Rightarrow> placeholder (i + int k) (cs ! k))"
proof (induction cs arbitrary: i k)
  case Nil
  then show ?case by simp
next
  case (Cons c cs)
  show ?case
  proof (cases k)
    case 0
    then show ?thesis by (simp split: sum.splits)
  next
    case (Suc n)
    with Cons.prems have "n < length cs" by simp
    from Cons.IH [OF this, of "i + 1"] Suc show ?thesis
      by (simp add: ac_simps split: sum.splits)
  qed
qed

lemma analyze_data:
  "snd (analyze texts) = chapter_loop 1 (split_chapters (extract_text_by_page texts))"
  by (simp add: analyze_def Let_def)

subsection \<open>The loop of the resolver\<close>

lemma resolve_loop_chapter_values:
  "resolve_loop m (map chapter_value cs) pages = Inr m"
  by (induction cs) (auto simp: chapter_value_def first_item_def split: option.splits)

lemma resolve_loop_append:
  "resolve_loop m (xs @ ys) pages =
     (case resolve_loop m xs pages of Inl e \<Rightarrow> Inl e | Inr m' \<Rightarrow> resolve_loop m' ys pages)"
  by (induction xs arbitrary: m) (auto split: sum.splits pyval.splits)

lemma strip_blank:
  assumes "\<forall>c\<in>set t. is_space c"
  shows "strip t = []"
proof -
  from assms have d: "dropWhile is_space t = []" by (induction t) auto
  show ?thesis unfolding strip_def d by simp
qed

subsection \<open>The order of the chapters\<close>

lemma ordered_from_snoc:
  "ordered_from f lo cs s \<Longrightarrow> ch_start c = Some s \<Longrightarrow> s \<le> ch_end c \<Longrightarrow> ch_end c + 1 \<le> hi \<Longrightarrow>
   ordered_from f lo (cs @ [c]) hi"
  by (induction cs arbitrary: f lo) auto

lemma scan_inv_mono: "scan_inv i st \<Longrightarrow> i \<le> j \<Longrightarrow> scan_inv j st"
  by (auto simp: scan_inv_def split: option.splits)

lemma scan_inv_open_chapter:
  assumes "scan_inv i st" and "0 \<le> i"
  shows "scan_inv (i + 1) (open_chapter st i t ttl)"
proof (cases "current_start st")
  case None
  with assms show ?thesis
    by (auto simp: scan_inv_def open_chapter_def)
next
  case (Some s)
  with assms have s: "s < i" and ne: "current_chapter st \<noteq> []"
    and o: "ordered_from True 0 (chapters st) s"
    by (auto simp: scan_inv_def)
  let ?c = "\<lparr>ch_title = current_title st, ch_start = current_start st,
            ch_end = i - 1, ch_content = current_chapter st\<rparr>"
  have "ordered_from True 0 (chapters st @ [?c]) i"
    using o s Some by (intro ordered_from_snoc [where s = s]) auto
  with ne show ?thesis
    by (simp add: scan_inv_def open_chapter_def)
qed

lemma scan_inv_process_page:
  assumes "scan_inv i st" and "0 \<le> i"
  shows "scan_inv (i + 1) (process_page st i page)"
proof (cases "\<exists>t. page = PStr t")
  case True
  then obtain t where t: "page = PStr t" by blast
  show ?thesis
  proof (cases "page_heading (splitlines t)")
    case None
    with assms show ?thesis
      by (auto simp: t process_page_str scan_inv_def split: option.splits)
  next
    case (Some ttl)
    with assms show ?thesis
      by (simp add: t process_page_str scan_inv_open_chapter)
  qed
next
  case False
  with assms show ?thesis
    by (simp add: process_page_non_str scan_inv_mono)
qed

lemma scan_inv_scan_pages:
  "scan_inv i st \<Longrightarrow> 0 \<le> i \<Longrightarrow> scan_inv (i + int (length pages)) (scan_pages st i pages)"
proof (induction pages arbitrary: st i)
  case Nil
  then show ?case by simp
next
  case (Cons page pages)
  from Cons.prems have "scan_inv (i + 1) (process_page st i page)"
    by (rule scan_inv_process_page)
  moreover from Cons.prems have "0 \<le> i + 1" by simp
  ultimately have "scan_inv (i + 1 + int (length pages))
      (scan_pages st i (page # pages))"
    using Cons.IH [of "i + 1" "process_page st i page"] by simp
  moreover have "i + 1 + int (length pages) = i + int (length (page # pages))" by simp
  ultimately show ?case by (simp del: of_nat_Suc)
qed

lemma split_chapters_ordered:
  "ordered_from True 0 (split_chapters pages) (int (length pages))"
proof -
  let ?st = "scan_pages init_state 0 pages"
  have "scan_inv 0 init_state" by (simp add: scan_inv_def init_state_def)
  from scan_inv_scan_pages [OF this, of pages]
  have inv: "scan_inv (int (length pages)) ?st" by simp
  show ?thesis
  proof (cases "current_chapter ?st = []")
    case True
    then have "?st = init_state" by (rule scan_pages_empty)
    then show ?thesis by (simp add: split_chapters_def init_state_def)
  next
    case False
    show ?thesis
    proof (cases "current_start ?st")
      case None
      with inv have "chapters ?st = []" by (simp add: scan_inv_def)
      with False None show ?thesis by (simp add: split_chapters_def Let_def)
    next
      case (Some s)
      with inv have "s < int (length pages)" and "ordered_from True 0 (chapters ?st) s"
        by (auto simp: scan_inv_def)
      then have "ordered_from True 0
          (chapters ?st @ [\<lparr>ch_title = current_title ?st, ch_start = current_start ?st,
              ch_end = int (length pages) - 1, ch_content = current_chapter ?st\<rparr>])
          (int (length pages))"
        using Some by (intro ordered_from_snoc [where s = s]) auto
      with False show ?thesis by (simp add: split_chapters_def Let_def)
    qed
  qed
qed

subsection \<open>A string page leaves a page list that is not empty\<close>

lemma process_page_str_nonempty: "current_chapter (process_page st i (PStr t)) \<noteq> []"
  by (simp add: process_page_str open_chapter_def split: option.splits)

lemma scan_pages_nonempty:
  "current_chapter st \<noteq> [] \<Longrightarrow> current_chapter (scan_pages st i pages) \<noteq> []"
  using scan_pages_empty [of st i pages] by auto

lemma scan_pages_some_str:
  "PStr t \<in> set pages \<Longrightarrow> current_chapter (scan_pages st i pages) \<noteq> []"
proof (induction pages arbitrary: st i)
  case Nil
  then show ?case by simp
next
  case (Cons page pages)
  show ?case
  proof (cases "page = PStr t")
    case True
    then show ?thesis by (simp add: process_page_str_nonempty scan_pages_nonempty)
  next
    case False
    with Cons.prems have "PStr t \<in> set pages" by simp
    then show ?thesis by (simp add: Cons.IH)
  qed
qed

lemma split_chapters_nonempty: "PStr t \<in> set pages \<Longrightarrow> split_chapters pages \<noteq> []"
  by (simp add: split_chapters_def Let_def scan_pages_some_str)

subsection \<open>A chapter once opened is in the result\<close>

lemma take1_append: "take 1 xs = [e] \<Longrightarrow> take 1 (xs @ ys) = [e]"
  by (cases xs) auto

lemma running_open_chapter: "running_or_closed i t ttl (open_chapter st i t ttl)"
  by (simp add: running_or_closed_def open_chapter_def)

lemma running_or_closed_open_chapter:
  assumes "running_or_closed k t ttl st"
  shows "running_or_closed k t ttl (open_chapter st j u new_title)"
proof (cases "\<exists>c\<in>set (chapters st). chapter_at k t ttl c")
  case True
  then show ?thesis by (auto simp: running_or_closed_def open_chapter_def)
next
  case False
  with assms have r: "current_title st = Some ttl" "current_start st = Some k"
    "take 1 (current_chapter st) = [(k, t)]"
    by (auto simp: running_or_closed_def)
  then have ne: "current_chapter st \<noteq> []" by auto
  have "chapter_at k t ttl \<lparr>ch_title = current_title st, ch_start = current_start st,
      ch_end = j - 1, ch_content = current_chapter st\<rparr>"
    using r by (simp add: chapter_at_def)
  with ne show ?thesis
    by (simp add: running_or_closed_def open_chapter_def)
qed

lemma running_or_closed_process_page:
  assumes "running_or_closed k t ttl st"
  shows "running_or_closed k t ttl (process_page st j page)"
proof (cases "\<exists>u. page = PStr u")
  case True
  then obtain u where u: "page = PStr u" by blast
  show ?thesis
  proof (cases "page_heading (splitlines u)")
    case None
    with assms show ?thesis
      by (auto simp: u process_page_str running_or_closed_def take1_append)
  next
    case (Some new_title)
    with assms show ?thesis
      by (simp add: u process_page_str running_or_closed_open_chapter)
  qed
next
  case False
  with assms show ?thesis by (simp add: process_page_non_str)
qed

lemma running_or_closed_scan_pages:
  "running_or_closed k t ttl st \<Longrightarrow> running_or_closed k t ttl (scan_pages st j pages)"
  by (induction pages arbitrary: st j) (auto simp: running_or_closed_process_page)

lemma scan_pages_append:
  "scan_pages st i (xs @ ys) = scan_pages (scan_pages st i xs) (i + int (length xs)) ys"
  by (induction xs arbitrary: st i) (auto simp: add.assoc add.commute)

lemma heading_page_in_result:
  assumes "k < length pages" and "pages ! k = PStr t"
    and "page_heading (splitlines t) = Some ttl"
  shows "\<exists>c\<in>set (split_chapters pages). chapter_at (int k) t ttl c"
proof -
  let ?xs = "take k pages" and ?ys = "drop (Suc k) pages"
  from assms(1,2) have p: "pages = ?xs @ PStr t # ?ys"
    using id_take_nth_drop [of k pages] by simp
  let ?st0 = "scan_pages init_state 0 ?xs"
  have len: "min (length pages) k = k" using assms(1) by simp
  have "scan_pages init_state 0 pages =
          scan_pages (process_page ?st0 (int k) (PStr t)) (int k + 1) ?ys"
    by (subst p) (simp add: scan_pages_append len)
  moreover have "running_or_closed (int k) t ttl (process_page ?st0 (int k) (PStr t))"
    using assms(3) by (simp add: process_page_str running_open_chapter)
  ultimately have r: "running_or_closed (int k) t ttl (scan_pages init_state 0 pages)"
    by (simp add: running_or_closed_scan_pages)
  show ?thesis
  proof (cases "\<exists>c\<in>set (chapters (scan_pages init_state 0 pages)). chapter_at (int k) t ttl c")
    case True
    then show ?thesis by (auto simp: split_chapters_def Let_def)
  next
    case False
    with r have c: "current_title (scan_pages init_state 0 pages) = Some ttl"
      "current_start (scan_pages init_state 0 pages) = Some (int k)"
      "take 1 (current_chapter (scan_pages init_state 0 pages)) = [(int k, t)]"
      by (auto simp: running_or_closed_def)
    then have "current_chapter (scan_pages init_state 0 pages) \<noteq> []" by auto
    with c show ?thesis
      by (simp add: split_chapters_def Let_def chapter_at_def)
  qed
qed

section \<open>Pages before the first heading\<close>

text \<open>
  Claim C1. The claim says that pages before the first detected heading are in no
  chapter, and that the result is empty when no page has a heading. The code appends
  such pages to \<open>current_chapter\<close>, which starts as \<open>[]\<close> and is never \<open>None\<close>, and closes
  them as a chapter whose title and start are \<open>None\<close>: for the pages \<open>"Title page"\<close>,
  \<open>"Chapter 1\nText"\<close> the first chapter of the result holds page 0, and for the single
  page \<open>"No heading here"\<close> the result is that one chapter, not the empty list.
\<close>

theorem preamble_pages_form_chapter:
  "split_chapters [PStr ''Title page'', PStr ''Chapter 1\<newline>Text''] =
     [\<lparr>ch_title = None, ch_start = None, ch_end = 0, ch_content = [(0, ''Title page'')]\<rparr>,
      \<lparr>ch_title = Some ''Chapter 1'', ch_start = Some 1, ch_end = 1,
        ch_content = [(1, ''Chapter 1\<newline>Text'')]\<rparr>]
   \<and> split_chapters [PStr ''No heading here''] =
     [\<lparr>ch_title = None, ch_start = None, ch_end = 0, ch_content = [(0, ''No heading here'')]\<rparr>]"
  by code_simp

text \<open>
  Claim C2. The claim says that every chapter of the result has a start page that is
  at most its end page and that the page ranges ascend without overlap. For the pages
  \<open>"Foreword"\<close>, \<open>"by the editor"\<close>, \<open>"Book Two"\<close> the first chapter of the result has
  no start page at all: its start is \<open>None\<close> and its end is 1. Lemma
  \<open>split_chapters_ordered\<close> shows that the chapters after the first are always in order.
\<close>

theorem leading_chapter_without_start:
  "map (\<lambda>c. (ch_start c, ch_end c))
     (split_chapters [PStr ''Foreword'', PStr ''by the editor'', PStr ''Book Two'']) =
   [(None, 1), (Some 2, 2)]"
  by code_simp

section \<open>Pages that are not strings\<close>

text \<open>
  Claim C3, as amended. A page that is not a string gives no heading match and is
  skipped: the step leaves every variable of the scan unchanged, so the page is
  appended to no page list, and every entry \<open>(j, t)\<close> of every chapter of the result is
  a string page \<open>t\<close> at index \<open>j\<close> of the input. An empty-string page met after a
  heading, in contrast, is appended to the page list of the running chapter.
\<close>

theorem non_string_page_skipped:
  "((\<forall>t. page \<noteq> PStr t) \<longrightarrow> process_page st i page = st)
   \<and> (\<forall>c\<in>set (split_chapters pages). page_entries pages (ch_content c))
   \<and> (current_start st = Some s \<longrightarrow>
        process_page st i (PStr []) = st\<lparr>current_chapter := current_chapter st @ [(i, [])]\<rparr>)"
  by (simp add: process_page_non_str split_chapters_entries process_page_str)

text \<open>
  The claim as it is written fails: with a chapter open at page 0, the non-string
  page 1 is not in the chapter's page list, whereas the empty-string page 1 is.
\<close>

theorem non_string_page_not_appended:
  "split_chapters [PStr ''Chapter 1'', PNone] =
     [\<lparr>ch_title = Some ''Chapter 1'', ch_start = Some 0, ch_end = 1,
       ch_content = [(0, ''Chapter 1'')]\<rparr>]
   \<and> split_chapters [PStr ''Chapter 1'', PStr []] =
     [\<lparr>ch_title = Some ''Chapter 1'', ch_start = Some 0, ch_end = 1,
       ch_content = [(0, ''Chapter 1''), (1, [])]\<rparr>]"
  by code_simp

theorem non_string_page_skipped_witness:
  "(\<forall>t. PNone \<noteq> PStr t)
   \<and> process_page (open_chapter init_state 0 ''Chapter 1'' ''Chapter 1'') 1 PNone =
       open_chapter init_state 0 ''Chapter 1'' ''Chapter 1''
   \<and> split_chapters [PStr ''Chapter 1'', PNone, PStr ''Text''] =
       [\<lparr>ch_title = Some ''Chapter 1'', ch_start = Some 0, ch_end = 2,
         ch_content = [(0, ''Chapter 1''), (2, ''Text'')]\<rparr>]
   \<and> page_entries [PStr ''Chapter 1'', PNone, PStr ''Text''] [(0, ''Chapter 1''), (2, ''Text'')]
   \<and> current_start (open_chapter init_state 0 ''Chapter 1'' ''Chapter 1'') = Some 0
   \<and> current_chapter
       (process_page (open_chapter init_state 0 ''Chapter 1'' ''Chapter 1'') 1 (PStr [])) =
       [(0, ''Chapter 1''), (1, [])]"
proof -
  have a: "split_chapters [PStr ''Chapter 1'', PNone, PStr ''Text''] =
       [\<lparr>ch_title = Some ''Chapter 1'', ch_start = Some 0, ch_end = 2,
         ch_content = [(0, ''Chapter 1''), (2, ''Text'')]\<rparr>]"
    by code_simp
  have b: "current_start (open_chapter init_state 0 ''Chapter 1'' ''Chapter 1'') = Some 0"
    by (simp add: open_chapter_def)
  have c: "current_chapter (open_chapter init_state 0 ''Chapter 1'' ''Chapter 1'') =
       [(0, ''Chapter 1'')]"
    by (simp add: open_chapter_def)
  from non_string_page_skipped
    [of PNone "open_chapter init_state 0 ''Chapter 1'' ''Chapter 1''" 1
      "[PStr ''Chapter 1'', PNone, PStr ''Text'']" 0] a b c
  show ?thesis by simp
qed

section \<open>Closing the last chapter\<close>

text \<open>
  Claim C4. For the pages \<open>"Chapter One\nText A"\<close>, \<open>"More text"\<close>,
  \<open>"Chapter Two\nText B"\<close> the result has exactly two chapters, the first over the
  page indices 0 to 1 and the second over the page index 2. For every page sequence
  with a string page the result is not empty, and the last chapter of a result that
  is not empty, the one still open at the end of the input, has as end page the index
  of the last page, \<open>len(pages) - 1\<close>.
\<close>

theorem split_chapters_example_last_end:
  "split_chapters
     [PStr ''Chapter One\<newline>Text A'', PStr ''More text'', PStr ''Chapter Two\<newline>Text B''] =
   [\<lparr>ch_title = Some ''Chapter One'', ch_start = Some 0, ch_end = 1,
     ch_content = [(0, ''Chapter One\<newline>Text A''), (1, ''More text'')]\<rparr>,
    \<lparr>ch_title = Some ''Chapter Two'', ch_start = Some 2, ch_end = 2,
     ch_content = [(2, ''Chapter Two\<newline>Text B'')]\<rparr>]
   \<and> (PStr t \<in> set pages \<longrightarrow> split_chapters pages \<noteq> [])
   \<and> (split_chapters pages \<noteq> [] \<longrightarrow>
        ch_end (last (split_chapters pages)) = int (length pages) - 1)"
proof (intro conjI)
  show "split_chapters
     [PStr ''Chapter One\<newline>Text A'', PStr ''More text'', PStr ''Chapter Two\<newline>Text B''] =
   [\<lparr>ch_title = Some ''Chapter One'', ch_start = Some 0, ch_end = 1,
     ch_content = [(0, ''Chapter One\<newline>Text A''), (1, ''More text'')]\<rparr>,
    \<lparr>ch_title = Some ''Chapter Two'', ch_start = Some 2, ch_end = 2,
     ch_content = [(2, ''Chapter Two\<newline>Text B'')]\<rparr>]"
    by code_simp
  show "PStr t \<in> set pages \<longrightarrow> split_chapters pages \<noteq> []"
    by (simp add: split_chapters_nonempty)
  show "split_chapters pages \<noteq> [] \<longrightarrow>
        ch_end (last (split_chapters pages)) = int (length pages) - 1"
    by (simp add: split_chapters_last_end)
qed

theorem split_chapters_example_last_end_witness:
  "PStr ''Once upon a time'' \<in> set [PStr ''Prologue'', PStr ''Once upon a time'']
   \<and> split_chapters [PStr ''Prologue'', PStr ''Once upon a time''] \<noteq> []
   \<and> ch_end (last (split_chapters [PStr ''Prologue'', PStr ''Once upon a time''])) = 1"
  using split_chapters_example_last_end
    [of "''Once upon a time''" "[PStr ''Prologue'', PStr ''Once upon a time'']"]
  by simp

section \<open>Headings\<close>

text \<open>
  Claim C5. On a page, the first line that gives a heading decides the step: the
  page opens one chapter with that heading, whatever lines follow it, also
  heading-like ones. One step closes at most one chapter, and the result has at most
  as many chapters as there are pages.
\<close>

theorem one_boundary_per_page:
  "(splitlines t = before @ l # after \<and>
      (\<forall>x\<in>set before. line_heading (strip x) = None) \<and>
      line_heading (strip l) = Some ttl \<longrightarrow>
      process_page st i (PStr t) = open_chapter st i t ttl)
   \<and> length (chapters (process_page st i page)) \<le> Suc (length (chapters st))
   \<and> length (split_chapters pages) \<le> length pages"
  by (simp add: process_page_str page_heading_first chapters_process_page length_split_chapters)

theorem one_boundary_per_page_witness:
  "splitlines ''A tale\<newline>Chapter 1\<newline>Chapter 2\<newline>Epilogue'' =
     [''A tale''] @ ''Chapter 1'' # [''Chapter 2'', ''Epilogue'']
   \<and> line_heading (strip ''A tale'') = None
   \<and> line_heading (strip ''Chapter 1'') = Some ''Chapter 1''
   \<and> line_heading (strip ''Chapter 2'') = Some ''Chapter 2''
   \<and> line_heading (strip ''Epilogue'') = Some ''Epilogue''
   \<and> process_page init_state 0 (PStr ''A tale\<newline>Chapter 1\<newline>Chapter 2\<newline>Epilogue'') =
       open_chapter init_state 0 ''A tale\<newline>Chapter 1\<newline>Chapter 2\<newline>Epilogue'' ''Chapter 1''
   \<and> split_chapters [PStr ''A tale\<newline>Chapter 1\<newline>Chapter 2\<newline>Epilogue''] =
       [\<lparr>ch_title = Some ''Chapter 1'', ch_start = Some 0, ch_end = 0,
         ch_content = [(0, ''A tale\<newline>Chapter 1\<newline>Chapter 2\<newline>Epilogue'')]\<rparr>]"
proof -
  have a: "splitlines ''A tale\<newline>Chapter 1\<newline>Chapter 2\<newline>Epilogue'' =
     [''A tale''] @ ''Chapter 1'' # [''Chapter 2'', ''Epilogue'']"
    by code_simp
  have n: "line_heading (strip ''A tale'') = None" by code_simp
  have b: "line_heading (strip ''Chapter 1'') = Some ''Chapter 1''" by code_simp
  have c: "line_heading (strip ''Chapter 2'') = Some ''Chapter 2''" by code_simp
  have d: "line_heading (strip ''Epilogue'') = Some ''Epilogue''" by code_simp
  have e: "split_chapters [PStr ''A tale\<newline>Chapter 1\<newline>Chapter 2\<newline>Epilogue''] =
       [\<lparr>ch_title = Some ''Chapter 1'', ch_start = Some 0, ch_end = 0,
         ch_content = [(0, ''A tale\<newline>Chapter 1\<newline>Chapter 2\<newline>Epilogue'')]\<rparr>]"
    by code_simp
  from a n b c d e
    one_boundary_per_page [of "''A tale\<newline>Chapter 1\<newline>Chapter 2\<newline>Epilogue''" "[''A tale'']"
      "''Chapter 1''" "[''Chapter 2'', ''Epilogue'']" "''Chapter 1''" init_state 0]
  show ?thesis by simp
qed

text \<open>
  Claim C6. Let \<open>l\<close> be the first line of the page \<open>t\<close> that gives a heading, and let
  \<open>t\<close> be the page at index \<open>k\<close> of \<open>pages\<close>. When \<open>l\<close>, stripped, is \<open>chapter 1\<close> in
  any letter case, the step for the page closes the running page list, if there is
  one, at the page before, and sets \<open>current_chapter\<close> to the page alone,
  \<open>current_start\<close> to its index and \<open>current_title\<close> to the stripped line; and the
  result of \<open>split_chapters\<close> has a chapter with that title that starts at \<open>k\<close> and
  whose page list begins with the page. When \<open>l\<close> is \<open>prologue\<close> in any letter case the
  same holds with the title \<open>Prologue\<close>. On every line \<open>chapter_regex\<close> is tried first
  and gives the title when it matches; otherwise the title is the label of the first
  pattern of \<open>section_patterns\<close>, in order, that matches.
\<close>

theorem heading_lines_open_chapters:
  assumes "splitlines t = before @ l # after"
    and "\<forall>x\<in>set before. line_heading (strip x) = None"
    and "k < length pages"
    and "pages ! k = PStr t"
  shows "(map to_lower (strip l) = ''chapter 1'' \<longrightarrow>
            process_page st i (PStr t) =
              \<lparr>chapters =
                 (if current_chapter st \<noteq> []
                  then chapters st @
                         [\<lparr>ch_title = current_title st, ch_start = current_start st,
                           ch_end = i - 1, ch_content = current_chapter st\<rparr>]
                  else chapters st),
               current_chapter = [(i, t)],
               current_title = Some (strip l),
               current_start = Some i\<rparr> \<and>
            (\<exists>c\<in>set (split_chapters pages).
               ch_title c = Some (strip l) \<and> ch_start c = Some (int k) \<and>
               take 1 (ch_content c) = [(int k, t)]))
       \<and> (map to_lower (strip l) = ''prologue'' \<longrightarrow>
            process_page st i (PStr t) =
              \<lparr>chapters =
                 (if current_chapter st \<noteq> []
                  then chapters st @
                         [\<lparr>ch_title = current_title st, ch_start = current_start st,
                           ch_end = i - 1, ch_content = current_chapter st\<rparr>]
                  else chapters st),
               current_chapter = [(i, t)],
               current_title = Some ''Prologue'',
               current_start = Some i\<rparr> \<and>
            (\<exists>c\<in>set (split_chapters pages).
               ch_title c = Some ''Prologue'' \<and> ch_start c = Some (int k) \<and>
               take 1 (ch_content c) = [(int k, t)]))
       \<and> (rx_match chapter_regex (strip l) \<longrightarrow>
            process_page st i (PStr t) =
              \<lparr>chapters =
                 (if current_chapter st \<noteq> []
                  then chapters st @
                         [\<lparr>ch_title = current_title st, ch_start = current_start st,
                           ch_end = i - 1, ch_content = current_chapter st\<rparr>]
                  else chapters st),
               current_chapter = [(i, t)],
               current_title = Some (strip l),
               current_start = Some i\<rparr> \<and>
            (\<exists>c\<in>set (split_chapters pages).
               ch_title c = Some (strip l) \<and> ch_start c = Some (int k) \<and>
               take 1 (ch_content c) = [(int k, t)]))
       \<and> (\<not> rx_match chapter_regex (strip l) \<and>
            match_sections section_patterns (strip l) = Some label \<longrightarrow>
            process_page st i (PStr t) =
              \<lparr>chapters =
                 (if current_chapter st \<noteq> []
                  then chapters st @
                         [\<lparr>ch_title = current_title st, ch_start = current_start st,
                           ch_end = i - 1, ch_content = current_chapter st\<rparr>]
                  else chapters st),
               current_chapter = [(i, t)],
               current_title = Some label,
               current_start = Some i\<rparr> \<and>
            (\<exists>c\<in>set (split_chapters pages).
               ch_title c = Some label \<and> ch_start c = Some (int k) \<and>
               take 1 (ch_content c) = [(int k, t)]))
       \<and> ((\<forall>(n, p)\<in>set ps. \<not> rx_match p cl) \<and> rx_match r cl \<longrightarrow>
            match_sections (ps @ (label', r) # qs) cl = Some label')"
proof -
  have step: "process_page st i (PStr t) =
              \<lparr>chapters =
                 (if current_chapter st \<noteq> []
                  then chapters st @
                         [\<lparr>ch_title = current_title st, ch_start = current_start st,
                           ch_end = i - 1, ch_content = current_chapter st\<rparr>]
                  else chapters st),
               current_chapter = [(i, t)],
               current_title = Some ttl,
               current_start = Some i\<rparr> \<and>
            (\<exists>c\<in>set (split_chapters pages).
               ch_title c = Some ttl \<and> ch_start c = Some (int k) \<and>
               take 1 (ch_content c) = [(int k, t)])"
    if h: "line_heading (strip l) = Some ttl" for ttl
  proof -
    from assms(1,2) h have ph: "page_heading (splitlines t) = Some ttl"
      by (simp add: page_heading_first)
    then have "process_page st i (PStr t) = open_chapter st i t ttl"
      by (simp add: process_page_str)
    moreover from heading_page_in_result [OF assms(3,4) ph]
    have "\<exists>c\<in>set (split_chapters pages).
               ch_title c = Some ttl \<and> ch_start c = Some (int k) \<and>
               take 1 (ch_content c) = [(int k, t)]"
      by (simp add: chapter_at_def)
    ultimately show ?thesis by (simp add: open_chapter_def)
  qed
  have a: "line_heading (strip l) = Some (strip l)"
    if "map to_lower (strip l) = ''chapter 1''"
    using that by (simp add: line_heading_def chapter_1_matches)
  have b: "line_heading (strip l) = Some ''Prologue''"
    if "map to_lower (strip l) = ''prologue''"
    using that by (simp add: line_heading_def prologue_not_chapter prologue_section)
  have c: "line_heading (strip l) = Some (strip l)"
    if "rx_match chapter_regex (strip l)"
    using that by (simp add: line_heading_def)
  have d: "line_heading (strip l) = Some label"
    if "\<not> rx_match chapter_regex (strip l)"
      and "match_sections section_patterns (strip l) = Some label"
    using that by (simp add: line_heading_def)
  have e: "match_sections (ps @ (label', r) # qs) cl = Some label'"
    if "\<forall>(n, p)\<in>set ps. \<not> rx_match p cl" and "rx_match r cl"
    using that by (rule match_sections_first)
  show ?thesis
  proof (intro conjI impI)
    assume "map to_lower (strip l) = ''chapter 1''"
    then have h: "line_heading (strip l) = Some (strip l)" by (rule a)
    from step [OF h] show "process_page st i (PStr t) =
              \<lparr>chapters =
                 (if current_chapter st \<noteq> []
                  then chapters st @
                         [\<lparr>ch_title = current_title st, ch_start = current_start st,
                           ch_end = i - 1, ch_content = current_chapter st\<rparr>]
                  else chapters st),
               current_chapter = [(i, t)],
               current_title = Some (strip l),
               current_start = Some i\<rparr>" by (rule conjunct1)
    from step [OF h] show "\<exists>c\<in>set (split_chapters pages).
               ch_title c = Some (strip l) \<and> ch_start c = Some (int k) \<and>
               take 1 (ch_content c) = [(int k, t)]" by (rule conjunct2)
  next
    assume "map to_lower (strip l) = ''prologue''"
    then have h: "line_heading (strip l) = Some ''Prologue''" by (rule b)
    from step [OF h] show "process_page st i (PStr t) =
              \<lparr>chapters =
                 (if current_chapter st \<noteq> []
                  then chapters st @
                         [\<lparr>ch_title = current_title st, ch_start = current_start st,
                           ch_end = i - 1, ch_content = current_chapter st\<rparr>]
                  else chapters st),
               current_chapter = [(i, t)],
               current_title = Some ''Prologue'',
               current_start = Some i\<rparr>" by (rule conjunct1)
    from step [OF h] show "\<exists>c\<in>set (split_chapters pages).
               ch_title c = Some ''Prologue'' \<and> ch_start c = Some (int k) \<and>
               take 1 (ch_content c) = [(int k, t)]" by (rule conjunct2)
  next
    assume "rx_match chapter_regex (strip l)"
    then have h: "line_heading (strip l) = Some (strip l)" by (rule c)
    from step [OF h] show "process_page st i (PStr t) =
              \<lparr>chapters =
                 (if current_chapter st \<noteq> []
                  then chapters st @
                         [\<lparr>ch_title = current_title st, ch_start = current_start st,
                           ch_end = i - 1, ch_content = current_chapter st\<rparr>]
                  else chapters st),
               current_chapter = [(i, t)],
               current_title = Some (strip l),
               current_start = Some i\<rparr>" by (rule conjunct1)
    from step [OF h] show "\<exists>c\<in>set (split_chapters pages).
               ch_title c = Some (strip l) \<and> ch_start c = Some (int k) \<and>
               take 1 (ch_content c) = [(int k, t)]" by (rule conjunct2)
  next
    assume "\<not> rx_match chapter_regex (strip l) \<and>
            match_sections section_patterns (strip l) = Some label"
    then have h: "line_heading (strip l) = Some label" using d by blast
    from step [OF h] show "process_page st i (PStr t) =
              \<lparr>chapters =
                 (if current_chapter st \<noteq> []
                  then chapters st @
                         [\<lparr>ch_title = current_title st, ch_start = current_start st,
                           ch_end = i - 1, ch_content = current_chapter st\<rparr>]
                  else chapters st),
               current_chapter = [(i, t)],
               current_title = Some label,
               current_start = Some i\<rparr>" by (rule conjunct1)
    from step [OF h] show "\<exists>c\<in>set (split_chapters pages).
               ch_title c = Some label \<and> ch_start c = Some (int k) \<and>
               take 1 (ch_content c) = [(int k, t)]" by (rule conjunct2)
  next
    assume "(\<forall>(n, p)\<in>set ps. \<not> rx_match p cl) \<and> rx_match r cl"
    then show "match_sections (ps @ (label', r) # qs) cl = Some label'"
      using e by blast
  qed
qed

theorem heading_lines_open_chapters_witness:
  "splitlines ''Some text\<newline>  cHaPtEr 1  \<newline>Prologue'' =
     [''Some text''] @ ''  cHaPtEr 1  '' # [''Prologue'']
   \<and> line_heading (strip ''Some text'') = None
   \<and> map to_lower (strip ''  cHaPtEr 1  '') = ''chapter 1''
   \<and> process_page
       \<lparr>chapters = [], current_chapter = [(0, ''PROLOGUE\<newline>Chapter 1'')],
        current_title = Some ''Prologue'', current_start = Some 0\<rparr> 1
       (PStr ''Some text\<newline>  cHaPtEr 1  \<newline>Prologue'') =
       \<lparr>chapters =
          [\<lparr>ch_title = Some ''Prologue'', ch_start = Some 0, ch_end = 0,
            ch_content = [(0, ''PROLOGUE\<newline>Chapter 1'')]\<rparr>],
        current_chapter = [(1, ''Some text\<newline>  cHaPtEr 1  \<newline>Prologue'')],
        current_title = Some ''cHaPtEr 1'', current_start = Some 1\<rparr>
   \<and> splitlines ''PROLOGUE\<newline>Chapter 1'' = [] @ ''PROLOGUE'' # [''Chapter 1'']
   \<and> map to_lower (strip ''PROLOGUE'') = ''prologue''
   \<and> \<not> rx_match chapter_regex (strip ''PROLOGUE'')
   \<and> process_page init_state 0 (PStr ''PROLOGUE\<newline>Chapter 1'') =
       \<lparr>chapters = [], current_chapter = [(0, ''PROLOGUE\<newline>Chapter 1'')],
        current_title = Some ''Prologue'', current_start = Some 0\<rparr>
   \<and> split_chapters
       [PStr ''PROLOGUE\<newline>Chapter 1'', PStr ''Some text\<newline>  cHaPtEr 1  \<newline>Prologue''] =
       [\<lparr>ch_title = Some ''Prologue'', ch_start = Some 0, ch_end = 0,
         ch_content = [(0, ''PROLOGUE\<newline>Chapter 1'')]\<rparr>,
        \<lparr>ch_title = Some ''cHaPtEr 1'', ch_start = Some 1, ch_end = 1,
         ch_content = [(1, ''Some text\<newline>  cHaPtEr 1  \<newline>Prologue'')]\<rparr>]
   \<and> (\<exists>c\<in>set (split_chapters
         [PStr ''PROLOGUE\<newline>Chapter 1'', PStr ''Some text\<newline>  cHaPtEr 1  \<newline>Prologue'']).
        ch_title c = Some ''cHaPtEr 1'' \<and> ch_start c = Some 1 \<and>
        take 1 (ch_content c) = [(1, ''Some text\<newline>  cHaPtEr 1  \<newline>Prologue'')])
   \<and> (\<exists>c\<in>set (split_chapters
         [PStr ''PROLOGUE\<newline>Chapter 1'', PStr ''Some text\<newline>  cHaPtEr 1  \<newline>Prologue'']).
        ch_title c = Some ''Prologue'' \<and> ch_start c = Some 0 \<and>
        take 1 (ch_content c) = [(0, ''PROLOGUE\<newline>Chapter 1'')])
   \<and> \<not> rx_match (Seq (Lit ''prologue'') Bnd) ''Epilogue''
   \<and> rx_match (Seq (Lit ''epilogue'') Bnd) ''Epilogue''
   \<and> match_sections
       ([(''Prologue'', Seq (Lit ''prologue'') Bnd)] @
        (''Epilogue'', Seq (Lit ''epilogue'') Bnd) # []) ''Epilogue'' = Some ''Epilogue''"
proof -
  let ?p0 = "''PROLOGUE\<newline>Chapter 1''"
  let ?p1 = "''Some text\<newline>  cHaPtEr 1  \<newline>Prologue''"
  let ?pages = "[PStr ?p0, PStr ?p1]"
  let ?st = "\<lparr>chapters = [], current_chapter = [(0, ?p0)],
        current_title = Some ''Prologue'', current_start = Some 0\<rparr>"
  have a1: "splitlines ?p1 = [''Some text''] @ ''  cHaPtEr 1  '' # [''Prologue'']"
    by code_simp
  have a0: "line_heading (strip ''Some text'') = None"
    by code_simp
  then have a2: "\<forall>x\<in>set [''Some text'']. line_heading (strip x) = None"
    by simp
  have a3: "map to_lower (strip ''  cHaPtEr 1  '') = ''chapter 1''"
    by code_simp
  have a4: "strip ''  cHaPtEr 1  '' = ''cHaPtEr 1''"
    by code_simp
  have k1: "1 < length ?pages" "?pages ! 1 = PStr ?p1" by simp_all
  have k0: "0 < length ?pages" "?pages ! 0 = PStr ?p0" by simp_all
  have b1: "splitlines ?p0 = [] @ ''PROLOGUE'' # [''Chapter 1'']"
    by code_simp
  have b2: "\<forall>x\<in>set []. line_heading (strip x) = None"
    by simp
  have b3: "map to_lower (strip ''PROLOGUE'') = ''prologue''"
    by code_simp
  have b4: "\<not> rx_match chapter_regex (strip ''PROLOGUE'')"
    by code_simp
  have c0: "\<not> rx_match (Seq (Lit ''prologue'') Bnd) ''Epilogue''"
    by code_simp
  then have c1: "\<forall>(n, p)\<in>set [(''Prologue'', Seq (Lit ''prologue'') Bnd)]. \<not> rx_match p ''Epilogue''"
    by simp
  have c2: "rx_match (Seq (Lit ''epilogue'') Bnd) ''Epilogue''"
    by code_simp
  have sc: "split_chapters ?pages =
       [\<lparr>ch_title = Some ''Prologue'', ch_start = Some 0, ch_end = 0,
         ch_content = [(0, ?p0)]\<rparr>,
        \<lparr>ch_title = Some ''cHaPtEr 1'', ch_start = Some 1, ch_end = 1,
         ch_content = [(1, ?p1)]\<rparr>]"
    by code_simp
  note A = heading_lines_open_chapters [OF a1 a2 k1, where st = ?st and i = 1,
      THEN conjunct1, rule_format, OF a3]
  note B = heading_lines_open_chapters [OF b1 b2 k0, where st = init_state and i = 0
      and ps = "[(''Prologue'', Seq (Lit ''prologue'') Bnd)]" and cl = "''Epilogue''"
      and r = "Seq (Lit ''epilogue'') Bnd" and label' = "''Epilogue''" and qs = "[]"]
  note B2 = B [THEN conjunct2, THEN conjunct1, rule_format, OF b3]
  have a5: "process_page ?st 1 (PStr ?p1) =
       \<lparr>chapters =
          [\<lparr>ch_title = Some ''Prologue'', ch_start = Some 0, ch_end = 0,
            ch_content = [(0, ?p0)]\<rparr>],
        current_chapter = [(1, ?p1)],
        current_title = Some ''cHaPtEr 1'', current_start = Some 1\<rparr>"
    using A [THEN conjunct1] by (simp add: a4)
  have a6: "\<exists>c\<in>set (split_chapters ?pages).
        ch_title c = Some ''cHaPtEr 1'' \<and> ch_start c = Some 1 \<and>
        take 1 (ch_content c) = [(1, ?p1)]"
    using A [THEN conjunct2] by (simp add: a4)
  have b5: "process_page init_state 0 (PStr ?p0) =
       \<lparr>chapters = [], current_chapter = [(0, ?p0)],
        current_title = Some ''Prologue'', current_start = Some 0\<rparr>"
    using B2 [THEN conjunct1] by (simp add: init_state_def)
  have b6: "\<exists>c\<in>set (split_chapters ?pages).
        ch_title c = Some ''Prologue'' \<and> ch_start c = Some 0 \<and>
        take 1 (ch_content c) = [(0, ?p0)]"
    using B2 [THEN conjunct2] by simp
  have c3: "match_sections
       ([(''Prologue'', Seq (Lit ''prologue'') Bnd)] @
        (''Epilogue'', Seq (Lit ''epilogue'') Bnd) # []) ''Epilogue'' = Some ''Epilogue''"
    by (rule B [THEN conjunct2, THEN conjunct2, THEN conjunct2, THEN conjunct2, rule_format,
          OF conjI [OF c1 c2]])
  show ?thesis
    by (intro conjI a1 a0 a3 a5 b1 b3 b4 b5 sc a6 b6 c0 c2 c3)
qed

section \<open>Statistics\<close>

text \<open>
  Claim C7. \<open>count_words\<close> counts the maximal runs of word characters, the tokens
  of \<open>\b\w+\b\<close> (the class \<open>\w\<close> is the letters, the digits and the underscore):
  2 for \<open>"Hello, world!"\<close> and 0 for the empty text. For a chapter with a start page,
  the record that \<open>analyze\<close> reports has as word count that number for the page texts
  joined by line feeds, as page count \<open>end - start + 1\<close>, and as start and end
  pages the 0-based indices of the segmentation plus one.
\<close>

theorem word_and_page_counts:
  assumes "chs = split_chapters (extract_text_by_page texts)"
    and "k < length chs"
    and "ch_start (chs ! k) = Some s"
  shows "count_words text = int (length (runs is_word text))
       \<and> count_words ''Hello, world!'' = 2
       \<and> count_words [] = 0
       \<and> snd (analyze texts) ! k =
           \<lparr>chapter_number = int k + 1, title = ch_title (chs ! k),
            start_page = IntCell (s + 1), end_page = IntCell (ch_end (chs ! k) + 1),
            page_count = IntCell (ch_end (chs ! k) - s + 1),
            word_count =
              int (length (runs is_word (join ''\<newline>'' (map snd (ch_content (chs ! k))))))\<rparr>"
proof -
  have "count_words ''Hello, world!'' = 2" by code_simp
  moreover have "count_words [] = 0" by code_simp
  moreover have "snd (analyze texts) ! k =
           \<lparr>chapter_number = int k + 1, title = ch_title (chs ! k),
            start_page = IntCell (s + 1), end_page = IntCell (ch_end (chs ! k) + 1),
            page_count = IntCell (ch_end (chs ! k) - s + 1),
            word_count =
              int (length (runs is_word (join ''\<newline>'' (map snd (ch_content (chs ! k))))))\<rparr>"
    using assms
    by (simp add: analyze_data chapter_loop_nth chapter_record_def count_words_runs add.commute)
  ultimately show ?thesis by (simp add: count_words_runs)
qed

theorem word_and_page_counts_witness:
  "split_chapters
     (extract_text_by_page [PStr ''Chapter 1\<newline>Hello, world!'', PStr ''more_text here'']) =
     [\<lparr>ch_title = Some ''Chapter 1'', ch_start = Some 0, ch_end = 1,
       ch_content = [(0, ''Chapter 1\<newline>Hello, world!''), (1, ''more_text here'')]\<rparr>]
   \<and> runs is_word ''Chapter 1\<newline>Hello, world!\<newline>more_text here'' =
       [''Chapter'', ''1'', ''Hello'', ''world'', ''more_text'', ''here'']
   \<and> snd (analyze [PStr ''Chapter 1\<newline>Hello, world!'', PStr ''more_text here'']) ! 0 =
       \<lparr>chapter_number = 1, title = Some ''Chapter 1'', start_page = IntCell 1,
        end_page = IntCell 2, page_count = IntCell 2, word_count = 6\<rparr>"
proof -
  have a: "split_chapters
       (extract_text_by_page [PStr ''Chapter 1\<newline>Hello, world!'', PStr ''more_text here'']) =
     [\<lparr>ch_title = Some ''Chapter 1'', ch_start = Some 0, ch_end = 1,
       ch_content = [(0, ''Chapter 1\<newline>Hello, world!''), (1, ''more_text here'')]\<rparr>]"
    by code_simp
  have r: "runs is_word ''Chapter 1\<newline>Hello, world!\<newline>more_text here'' =
       [''Chapter'', ''1'', ''Hello'', ''world'', ''more_text'', ''here'']"
    by code_simp
  note b = a [symmetric]
  from word_and_page_counts [OF b, where k = 0 and s = 0] a r
  show ?thesis by simp
qed

text \<open>
  Claim C8. \<open>analyze\<close> returns one record for each chapter of the segmentation, and
  \<open>chapter_count\<close> is their number. The record at position \<open>k\<close> has the number
  \<open>k + 1\<close>; when the body of the \<open>try\<close> raises for that chapter the record is the
  placeholder, with \<open>"?"\<close> as start page, end page and page count and 0 as word count,
  and when it does not raise the record is the one it computes, whatever happened to
  the chapters before.
\<close>

theorem failed_chapter_keeps_its_place:
  "fst (analyze texts) = int (length (split_chapters (extract_text_by_page texts)))
   \<and> length (snd (analyze texts)) = length (split_chapters (extract_text_by_page texts))
   \<and> (\<forall>k < length (split_chapters (extract_text_by_page texts)).
        (\<forall>e. chapter_record (int k + 1) (split_chapters (extract_text_by_page texts) ! k) = Inl e \<longrightarrow>
           snd (analyze texts) ! k =
             \<lparr>chapter_number = int k + 1,
              title = ch_title (split_chapters (extract_text_by_page texts) ! k),
              start_page = StrCell ''?'', end_page = StrCell ''?'',
              page_count = StrCell ''?'', word_count = 0\<rparr>)
        \<and> (\<forall>r. chapter_record (int k + 1) (split_chapters (extract_text_by_page texts) ! k) = Inr r \<longrightarrow>
           snd (analyze texts) ! k = r))"
  by (simp add: analyze_data chapter_loop_nth placeholder_def add.commute)
    (simp add: analyze_def Let_def)

theorem failed_chapter_keeps_its_place_witness:
  "split_chapters (extract_text_by_page [PStr ''Title page'', PNone, PStr ''Chapter 1\<newline>Some text'']) =
     [\<lparr>ch_title = None, ch_start = None, ch_end = 1, ch_content = [(0, ''Title page''), (1, [])]\<rparr>,
      \<lparr>ch_title = Some ''Chapter 1'', ch_start = Some 2, ch_end = 2,
        ch_content = [(2, ''Chapter 1\<newline>Some text'')]\<rparr>]
   \<and> chapter_record 1 \<lparr>ch_title = None, ch_start = None, ch_end = 1,
        ch_content = [(0, ''Title page''), (1, [])]\<rparr> = Inl TypeError
   \<and> snd (analyze [PStr ''Title page'', PNone, PStr ''Chapter 1\<newline>Some text'']) ! 0 =
       \<lparr>chapter_number = 1, title = None, start_page = StrCell ''?'', end_page = StrCell ''?'',
        page_count = StrCell ''?'', word_count = 0\<rparr>
   \<and> snd (analyze [PStr ''Title page'', PNone, PStr ''Chapter 1\<newline>Some text'']) ! 1 =
       \<lparr>chapter_number = 2, title = Some ''Chapter 1'', start_page = IntCell 3,
        end_page = IntCell 3, page_count = IntCell 1, word_count = 4\<rparr>"
proof -
  have a: "split_chapters (extract_text_by_page [PStr ''Title page'', PNone, PStr ''Chapter 1\<newline>Some text'']) =
     [\<lparr>ch_title = None, ch_start = None, ch_end = 1, ch_content = [(0, ''Title page''), (1, [])]\<rparr>,
      \<lparr>ch_title = Some ''Chapter 1'', ch_start = Some 2, ch_end = 2,
        ch_content = [(2, ''Chapter 1\<newline>Some text'')]\<rparr>]"
    by code_simp
  have b: "chapter_record 1 \<lparr>ch_title = None, ch_start = None, ch_end = 1,
        ch_content = [(0, ''Title page''), (1, [])]\<rparr> = Inl TypeError"
    by (simp add: chapter_record_def)
  have c: "chapter_record 2 \<lparr>ch_title = Some ''Chapter 1'', ch_start = Some 2, ch_end = 2,
        ch_content = [(2, ''Chapter 1\<newline>Some text'')]\<rparr> =
       Inr \<lparr>chapter_number = 2, title = Some ''Chapter 1'', start_page = IntCell 3,
        end_page = IntCell 3, page_count = IntCell 1, word_count = 4\<rparr>"
    by code_simp
  from a b c
    failed_chapter_keeps_its_place [of "[PStr ''Title page'', PNone, PStr ''Chapter 1\<newline>Some text'']"]
  show ?thesis
    by (simp add: All_less_Suc)
qed

section \<open>The resolver of start pages\<close>

text \<open>
  Claim C9. The claim says that for every chapter the resolver records, under the
  uppercased first line of the chapter's first page, the number of the first page
  that contains it. A chapter of \<open>split_chapters\<close> is the tuple
  \<open>(title, start, end, content)\<close>, so \<open>chapter[0]\<close> is its title and not a tuple, and
  the resolver skips it: for the chapters of the single page \<open>"Chapter 1\nText"\<close> it
  returns the empty dictionary, with no entry for \<open>CHAPTER 1\<close>. Given the page list of
  that chapter, its fourth component, the resolver does record page 1 for \<open>CHAPTER 1\<close>.
\<close>

theorem resolver_skips_segmenter_chapters:
  "split_chapters [PStr ''Chapter 1\<newline>Text''] =
     [\<lparr>ch_title = Some ''Chapter 1'', ch_start = Some 0, ch_end = 0,
       ch_content = [(0, ''Chapter 1\<newline>Text'')]\<rparr>]
   \<and> get_chapter_start_pages
       (map chapter_value (split_chapters [PStr ''Chapter 1\<newline>Text'']))
       [PStr ''Chapter 1\<newline>Text''] = Inr Map.empty
   \<and> (case get_chapter_start_pages [PList [PTuple [PInt 0, PStr ''Chapter 1\<newline>Text'']]]
         [PStr ''Chapter 1\<newline>Text''] of
         Inl e \<Rightarrow> None
       | Inr m \<Rightarrow> m ''CHAPTER 1'') = Some (Some 1)"
proof (intro conjI)
  show "split_chapters [PStr ''Chapter 1\<newline>Text''] =
     [\<lparr>ch_title = Some ''Chapter 1'', ch_start = Some 0, ch_end = 0,
       ch_content = [(0, ''Chapter 1\<newline>Text'')]\<rparr>]"
    by code_simp
  show "get_chapter_start_pages
       (map chapter_value (split_chapters [PStr ''Chapter 1\<newline>Text'']))
       [PStr ''Chapter 1\<newline>Text''] = Inr Map.empty"
    by (simp add: get_chapter_start_pages_def resolve_loop_chapter_values)
  show "(case get_chapter_start_pages [PList [PTuple [PInt 0, PStr ''Chapter 1\<newline>Text'']]]
         [PStr ''Chapter 1\<newline>Text''] of
         Inl e \<Rightarrow> None
       | Inr m \<Rightarrow> m ''CHAPTER 1'') = Some (Some 1)"
    by code_simp
qed

text \<open>
  Claim C10. There are inputs on which \<open>get_chapter_start_pages\<close> raises
  \<open>IndexError\<close>: when the chapters before have been handled without an exception and
  a chapter's first entry is a pair whose page text is empty or all whitespace, the
  first-line extraction \<open>strip().splitlines()[0]\<close> raises, and the whole call ends
  with that exception, whatever chapters follow and whatever was recorded before.
\<close>

theorem blank_first_page_raises:
  assumes "\<not> isl (get_chapter_start_pages before pages)"
    and "first_item ch = Inr (PTuple [idx, PStr t])"
    and "\<forall>c\<in>set t. is_space c"
  shows "get_chapter_start_pages (before @ ch # rest) pages = Inl IndexError"
proof -
  from assms(1) obtain m where m: "resolve_loop Map.empty before pages = Inr m"
    by (cases "get_chapter_start_pages before pages") (auto simp: get_chapter_start_pages_def)
  from assms(3) have "strip t = []" by (rule strip_blank)
  then have "possible_title [idx, PStr t] = Inl IndexError"
    by (simp add: possible_title_def)
  with assms(2) have "resolve_loop m (ch # rest) pages = Inl IndexError"
    by simp
  with m show ?thesis
    by (simp add: get_chapter_start_pages_def resolve_loop_append)
qed

theorem blank_first_page_raises_witness:
  "\<not> isl (get_chapter_start_pages [PList [PTuple [PInt 0, PStr ''Chapter 1'']]]
            [PStr ''Chapter 1'', PStr '' \<newline> ''])
   \<and> first_item (PList [PTuple [PInt 1, PStr '' \<newline> '']]) = Inr (PTuple [PInt 1, PStr '' \<newline> ''])
   \<and> is_space CHR '' '' \<and> is_space CHR ''\<newline>''
   \<and> get_chapter_start_pages
        ([PList [PTuple [PInt 0, PStr ''Chapter 1'']]] @ PList [PTuple [PInt 1, PStr '' \<newline> '']] # [])
        [PStr ''Chapter 1'', PStr '' \<newline> ''] = Inl IndexError"
proof -
  have a: "\<not> isl (get_chapter_start_pages [PList [PTuple [PInt 0, PStr ''Chapter 1'']]]
            [PStr ''Chapter 1'', PStr '' \<newline> ''])"
    by code_simp
  have b: "first_item (PList [PTuple [PInt 1, PStr '' \<newline> '']]) = Inr (PTuple [PInt 1, PStr '' \<newline> ''])"
    by (simp add: first_item_def)
  have c: "\<forall>c\<in>set '' \<newline> ''. is_space c"
    by (simp add: is_space_def)
  have d: "is_space CHR '' '' \<and> is_space CHR ''\<newline>''"
    by (simp add: is_space_def)
  from a b d blank_first_page_raises [OF a b c, of "[]"] show ?thesis by blast
qed

end
